theory Spec2Isabelle
  imports Complex_Main "HOL-Library.Multiset" "HOL-Library.Sublist"
begin

section \<open>Traffic analytics dashboard: decomposition and resampling pipeline\<close>

text \<open>
  Shallow embedding of the computational core of \<^verbatim>\<open>st_app.py\<close>. Python integers are
  \<^typ>\<open>int\<close>; a numeric cell of a pandas column is a \<^typ>\<open>real option\<close>, where
  \<^term>\<open>None\<close> is the missing value (NaN) and floating-point numbers are idealised as
  reals. Exceptions are values of the type \<open>error\<close>.
\<close>

datatype error = ValueError | KeyError | AttributeError

type_synonym series = "real option list"

subsection \<open>Adaptive window sizing (time tab, decomposition section)\<close>

text \<open>
  \<^verbatim>\<open>def _odd(k): k = int(max(3, k)); return k if k % 2 == 1 else k + 1\<close>
  (the local helper \<^verbatim>\<open>_odd\<close>; an Isabelle name cannot start with an underscore).
\<close>

definition local_odd :: "int \<Rightarrow> int" where
  "local_odd k0 = (let k = max 3 k0 in if k mod 2 = 1 then k else k + 1)"

text \<open>
  \<^verbatim>\<open>seasonal_w = _odd(min(max(11, period), max(7, n // 8)))\<close> and
  \<^verbatim>\<open>trend_w = _odd(min(max(35, period * 5), max(7, n // 2)))\<close>,
  as functions of the series length and the period.
\<close>

definition seasonal_w :: "int \<Rightarrow> int \<Rightarrow> int" where
  "seasonal_w n period = local_odd (min (max 11 period) (max 7 (n div 8)))"

definition trend_w :: "int \<Rightarrow> int \<Rightarrow> int" where
  "trend_w n period = local_odd (min (max 35 (period * 5)) (max 7 (n div 2)))"

subsection \<open>The decomposition panel and its length guard\<close>

text \<open>\<^verbatim>\<open>algo.startswith("STL")\<close>\<close>

definition startswith :: "string \<Rightarrow> string \<Rightarrow> bool" where
  "startswith s p = (take (length p) s = p)"

text \<open>
  The four sequences the panel plots: \<^verbatim>\<open>obs, trend, seas, resid\<close>.
\<close>

record decomposition =
  obs :: series
  trend :: series
  seas :: series
  resid :: series

text \<open>
  What the decomposition section shows: either the figure built from a decomposition,
  or the \<^verbatim>\<open>st.info\<close> message of the \<^verbatim>\<open>else\<close> branch.
\<close>

datatype panel = Decomposed decomposition | Info string

text \<open>
  The message \<^verbatim>\<open>"Not enough hourly points in this month/year (need >= 48)."\<close>, whose
  comparison sign is the single code point U+2265, three bytes in UTF-8.
\<close>

definition not_enough_msg :: string where
  "not_enough_msg =
     ''Not enough hourly points in this month/year (need ''
       @ [CHR 0xE2, CHR 0x89, CHR 0xA5] @ '' 48).''"

text \<open>
  The body of the section from \<^verbatim>\<open>n = len(ts_hourly)\<close> on. The two fitting routines
  belong to the statistics library, not to this program, so they are parameters:
  \<open>stl_fit series period seasonal trend robust\<close> returns the triple
  \<^verbatim>\<open>(res.trend, res.seasonal, res.resid)\<close> and \<open>seasonal_decompose series period\<close>
  returns the four fields of the additive result.
\<close>

definition decomposition_panel ::
  "(series \<Rightarrow> int \<Rightarrow> int \<Rightarrow> int \<Rightarrow> bool \<Rightarrow> series \<times> series \<times> series) \<Rightarrow>
   (series \<Rightarrow> int \<Rightarrow> decomposition) \<Rightarrow> string \<Rightarrow> series \<Rightarrow> panel" where
  "decomposition_panel stl_fit seasonal_decompose algo ts_hourly =
     (let n = int (length ts_hourly) in
      if n \<ge> 48 then
        (let period = 24 in
         if startswith algo ''STL'' then
           (let seasonal_w' = seasonal_w n period;
                trend_w' = trend_w n period;
                (t, s, r) = stl_fit ts_hourly period seasonal_w' trend_w' True
            in Decomposed \<lparr>obs = ts_hourly, trend = t, seas = s, resid = r\<rparr>)
         else Decomposed (seasonal_decompose ts_hourly period))
      else Info not_enough_msg)"

subsection \<open>Series primitives of the data-frame library\<close>

text \<open>
  The program calls pandas for every operation on a series. Those routines are not part of
  this program; the definitions of this subsection follow their documented behaviour on
  numeric data, with missing values skipped by every aggregate.

  \<open>valid\<close> lists the values that are present (\<^verbatim>\<open>dropna().values\<close>), and
  \<open>series_abs\<close> is \<^verbatim>\<open>Series.abs()\<close>, which keeps missing values missing.
\<close>

definition valid :: "series \<Rightarrow> real list" where
  "valid s = map the (filter (\<lambda>v. v \<noteq> None) s)"

definition series_abs :: "series \<Rightarrow> series" where
  "series_abs s = map (map_option abs) s"

text \<open>
  The aggregates \<^verbatim>\<open>sum\<close>, \<^verbatim>\<open>mean\<close> and \<^verbatim>\<open>std\<close> over the present values of a group or
  window. The sum of no values is 0 (\<^verbatim>\<open>min_count=0\<close>), the mean of no values is missing,
  and the sample standard deviation (\<^verbatim>\<open>ddof=1\<close>) of fewer than two values is missing.
\<close>

definition agg_sum :: "real list \<Rightarrow> real option" where
  "agg_sum v = Some (sum_list v)"

definition agg_mean :: "real list \<Rightarrow> real option" where
  "agg_mean v = (if v = [] then None else Some (sum_list v / real (length v)))"

definition agg_std :: "real list \<Rightarrow> real option" where
  "agg_std v =
     (if length v < 2 then None
      else (let m = sum_list v / real (length v)
            in Some (sqrt (sum_list (map (\<lambda>x. (x - m)\<^sup>2) v) / real (length v - 1)))))"

text \<open>
  \<^verbatim>\<open>s.rolling(w, min_periods=m)\<close> followed by an aggregate: the window at position \<open>i\<close>
  holds the last \<open>w\<close> entries up to and including \<open>i\<close>; the result there is missing when
  fewer than \<open>m\<close> of them are present. The constructor raises \<^verbatim>\<open>ValueError\<close> when
  \<open>m\<close> exceeds \<open>w\<close>.
\<close>

definition window :: "nat \<Rightarrow> 'a list \<Rightarrow> nat \<Rightarrow> 'a list" where
  "window w s i = drop (Suc i - w) (take (Suc i) s)"

definition rolling :: "nat \<Rightarrow> nat \<Rightarrow> (real list \<Rightarrow> real option) \<Rightarrow> series \<Rightarrow> error + series" where
  "rolling w min_periods agg s =
     (if w < min_periods then Inl ValueError
      else Inr (map (\<lambda>i. let v = valid (window w s i)
                         in if length v < min_periods then None else agg v)
                    [0..<length s]))"

subsection \<open>Rolling aggregate of the residual\<close>

text \<open>
  The four choices of the \<^verbatim>\<open>Aggregate\<close> select box:
  \<^verbatim>\<open>"mean"\<close>, \<^verbatim>\<open>"sum"\<close>, \<^verbatim>\<open>"std"\<close>, \<^verbatim>\<open>"abs_sum"\<close>.
\<close>

datatype roll_stat = Mean | Sum | Std | Abs_sum

text \<open>
  \<^verbatim>\<open>resid_roll = (resid.abs().rolling(roll_h, min_periods=1).sum()
                   if roll_stat == "abs_sum"
                   else getattr(resid.rolling(roll_h, min_periods=1), roll_stat)())\<close>

  \<open>rolling_method\<close> is the \<^verbatim>\<open>getattr\<close>: a rolling window has the methods \<^verbatim>\<open>mean\<close>,
  \<^verbatim>\<open>sum\<close> and \<^verbatim>\<open>std\<close>, and no attribute \<^verbatim>\<open>abs_sum\<close>.
\<close>

fun rolling_method :: "roll_stat \<Rightarrow> error + (real list \<Rightarrow> real option)" where
  "rolling_method Mean = Inr agg_mean"
| "rolling_method Sum = Inr agg_sum"
| "rolling_method Std = Inr agg_std"
| "rolling_method Abs_sum = Inl AttributeError"

definition resid_roll :: "roll_stat \<Rightarrow> series \<Rightarrow> nat \<Rightarrow> error + series" where
  "resid_roll stat resid' roll_h =
     (if stat = Abs_sum then rolling roll_h 1 agg_sum (series_abs resid')
      else (case rolling_method stat of
              Inl e \<Rightarrow> Inl e
            | Inr agg \<Rightarrow> rolling roll_h 1 agg resid'))"

subsection \<open>Marking the highest and lowest points\<close>






subsection \<open>Frames, resampling and joining\<close>

text \<open>
  A frame is the list of its numeric columns by name, in column order. A time-indexed
  frame (the result of \<^verbatim>\<open>set_index('datetime')\<close>) carries the timestamp of every row as
  well; timestamps are valid (not \<^verbatim>\<open>NaT\<close>) and counted in nanoseconds since the epoch.
\<close>

type_synonym frame = "(string \<times> series) list"

type_synonym timestamp = int

record indexed_frame =
  index :: "timestamp list"
  columns :: frame

text \<open>
  \<open>loc fr c k\<close> reads column \<open>c\<close> at the first row labelled \<open>k\<close>; the outer \<^term>\<open>None\<close>
  says that the column or the label does not exist, the inner one that the cell is
  missing.
\<close>

definition loc :: "indexed_frame \<Rightarrow> string \<Rightarrow> timestamp \<Rightarrow> real option option" where
  "loc fr c k =
     (case map_of (columns fr) c of
        None \<Rightarrow> None
      | Some col \<Rightarrow> map_of (zip (index fr) col) k)"

text \<open>
  \<^verbatim>\<open>sort_index()\<close>: the rows in increasing order of timestamp. The model keeps rows of
  equal timestamp in their original order; no aggregate below depends on that order.
\<close>

definition sort_index :: "indexed_frame \<Rightarrow> indexed_frame" where
  "sort_index fr =
     \<lparr>index = sort (index fr),
      columns = map (\<lambda>(c, col). (c, map snd (sort_key fst (zip (index fr) col))))
                    (columns fr)\<rparr>"

text \<open>
  The resampling rule is \<^verbatim>\<open>'H'\<close> or \<^verbatim>\<open>'D'\<close>. A bucket is named by its start, the
  timestamp rounded down to a whole hour or day.
\<close>

datatype rule = H | D

fun rule_width :: "rule \<Rightarrow> int" where
  "rule_width H = 3600000000000"
| "rule_width D = 86400000000000"

definition bucket_start :: "rule \<Rightarrow> timestamp \<Rightarrow> timestamp" where
  "bucket_start r t = (t div rule_width r) * rule_width r"

text \<open>
  \<^verbatim>\<open>resample(rule)\<close> lays out one bucket per step from the bucket of the smallest
  timestamp to the bucket of the largest one, whether rows fall into it or not; an empty
  frame has no bucket.
\<close>

definition grid :: "rule \<Rightarrow> timestamp list \<Rightarrow> timestamp list" where
  "grid r idx =
     (if idx = [] then []
      else (let w = rule_width r;
                lo = bucket_start r (Min (set idx));
                hi = bucket_start r (Max (set idx))
            in map (\<lambda>k. lo + int k * w) [0..<Suc (nat ((hi - lo) div w))]))"

text \<open>
  The cells of a column whose rows fall into bucket \<open>b\<close>, and the aggregation of a column
  over every bucket of the grid (missing cells are skipped by the aggregate).
\<close>

definition bucket_cells :: "rule \<Rightarrow> timestamp list \<Rightarrow> series \<Rightarrow> timestamp \<Rightarrow> series" where
  "bucket_cells r idx col b =
     map snd (filter (\<lambda>p. bucket_start r (fst p) = b) (zip idx col))"

definition resample_col ::
  "rule \<Rightarrow> (real list \<Rightarrow> real option) \<Rightarrow> timestamp list \<Rightarrow> series \<Rightarrow> series" where
  "resample_col r agg idx col = map (\<lambda>b. agg (valid (bucket_cells r idx col b))) (grid r idx)"

text \<open>
  \<^verbatim>\<open>resample(rule).agg({column: aggregate, ...})\<close>: the result has the listed columns, in
  the order of the dictionary; a listed column that the frame lacks raises
  \<^verbatim>\<open>KeyError\<close>. \<^verbatim>\<open>resample(rule).mean()\<close> takes the mean of every column.
\<close>

definition resample_agg ::
  "rule \<Rightarrow> (string \<times> (real list \<Rightarrow> real option)) list \<Rightarrow> indexed_frame
     \<Rightarrow> error + indexed_frame" where
  "resample_agg r spec fr =
     (if \<exists>c \<in> set (map fst spec). map_of (columns fr) c = None then Inl KeyError
      else Inr \<lparr>index = grid r (index fr),
                columns = map (\<lambda>(c, agg).
                                 (c, resample_col r agg (index fr) (the (map_of (columns fr) c))))
                              spec\<rparr>)"

definition resample_mean :: "rule \<Rightarrow> indexed_frame \<Rightarrow> indexed_frame" where
  "resample_mean r fr =
     \<lparr>index = grid r (index fr),
      columns = map (\<lambda>(c, col). (c, resample_col r agg_mean (index fr) col)) (columns fr)\<rparr>"

text \<open>
  \<^verbatim>\<open>a.join(b, how='inner')\<close> on the indexes, for frames whose index has no repeated
  label (as every resampled frame): the rows of \<open>a\<close> whose label also occurs in \<open>b\<close>,
  with the columns of both. A column name occurring on both sides raises
  \<^verbatim>\<open>ValueError\<close> (no suffix is given).
\<close>

definition rows_at :: "timestamp list \<Rightarrow> series \<Rightarrow> timestamp list \<Rightarrow> series" where
  "rows_at idx col keys = map (\<lambda>k. the (map_of (zip idx col) k)) keys"

definition join_inner :: "indexed_frame \<Rightarrow> indexed_frame \<Rightarrow> error + indexed_frame" where
  "join_inner a b =
     (if set (map fst (columns a)) \<inter> set (map fst (columns b)) \<noteq> {} then Inl ValueError
      else (let keys = filter (\<lambda>k. k \<in> set (index b)) (index a)
            in Inr \<lparr>index = keys,
                     columns =
                       map (\<lambda>(c, col). (c, rows_at (index a) col keys)) (columns a)
                       @ map (\<lambda>(c, col). (c, rows_at (index b) col keys)) (columns b)\<rparr>))"

text \<open>
  The three resampling expressions of the program. Time tab:
  \<^verbatim>\<open>ts = df_f.set_index('datetime').sort_index()
            .resample(rule).agg({'traffic_volume': 'mean', 'average_speed': 'mean'})\<close>.
  Correlation tab:
  \<^verbatim>\<open>base = _df.set_index('datetime').sort_index().resample(rule)
              .agg({'traffic_volume': 'mean', 'average_speed': 'mean', 'incidents': 'sum'})\<close>,
  \<^verbatim>\<open>ext_r = ext.set_index(dt_col).sort_index().resample(rule).mean()\<close> and
  \<^verbatim>\<open>join = base.join(ext_r, how='inner')\<close>.
  The argument frames are the ones after \<^verbatim>\<open>set_index\<close>.
\<close>

definition ts :: "rule \<Rightarrow> indexed_frame \<Rightarrow> error + indexed_frame" where
  "ts r df_f =
     resample_agg r [(''traffic_volume'', agg_mean), (''average_speed'', agg_mean)]
       (sort_index df_f)"

definition base :: "rule \<Rightarrow> indexed_frame \<Rightarrow> error + indexed_frame" where
  "base r df =
     resample_agg r
       [(''traffic_volume'', agg_mean), (''average_speed'', agg_mean), (''incidents'', agg_sum)]
       (sort_index df)"

definition ext_r :: "rule \<Rightarrow> indexed_frame \<Rightarrow> indexed_frame" where
  "ext_r r ext = resample_mean r (sort_index ext)"

definition join :: "rule \<Rightarrow> indexed_frame \<Rightarrow> indexed_frame \<Rightarrow> error + indexed_frame" where
  "join r df ext =
     (case base r df of
        Inl e \<Rightarrow> Inl e
      | Inr b \<Rightarrow> join_inner b (ext_r r ext))"

subsection \<open>Winsorizing\<close>

text \<open>
  Frames are objects: the store lists the frames that exist, and a reference to a frame is
  its position in the store. \<^verbatim>\<open>frame.copy()\<close> makes a new object with the same content.
\<close>

type_synonym store = "frame list"

definition frame_copy :: "store \<Rightarrow> nat \<Rightarrow> store \<times> nat" where
  "frame_copy s a = (s @ [s ! a], length s)"

text \<open>
  \<^verbatim>\<open>Series.quantile(q)\<close> with linear interpolation between the two nearest order
  statistics of the present values: missing when no value is present. For a pair \<open>q\<close> it
  returns both quantiles, and raises \<^verbatim>\<open>ValueError\<close> unless both lie in \<open>[0, 1]\<close>.
\<close>

definition quantile :: "real \<Rightarrow> series \<Rightarrow> real option" where
  "quantile q col =
     (let xs = sort (valid col); m = length xs
      in if m = 0 then None
         else (let h = q * real (m - 1);
                   i = nat \<lfloor>h\<rfloor>;
                   g = h - real i
               in Some (xs ! i + (xs ! min (i + 1) (m - 1) - xs ! i) * g)))"

definition quantile2 :: "real \<times> real \<Rightarrow> series \<Rightarrow> error + (real option \<times> real option)" where
  "quantile2 q col =
     (if fst q < 0 \<or> 1 < fst q \<or> snd q < 0 \<or> 1 < snd q then Inl ValueError
      else Inr (quantile (fst q) col, quantile (snd q) col))"

text \<open>
  \<^verbatim>\<open>Series.clip(lower, upper)\<close>: present values are moved into the range, missing values
  stay missing, a missing bound does not clip, and two bounds given in the wrong order are
  swapped.
\<close>

definition clip :: "series \<Rightarrow> real option \<Rightarrow> real option \<Rightarrow> series" where
  "clip col lower upper =
     (case (lower, upper) of
        (Some l, Some u) \<Rightarrow> map (map_option (\<lambda>x. min (max x (min l u)) (max l u))) col
      | (Some l, None) \<Rightarrow> map (map_option (\<lambda>x. max x l)) col
      | (None, Some u) \<Rightarrow> map (map_option (\<lambda>x. min x u)) col
      | (None, None) \<Rightarrow> col)"

text \<open>\<^verbatim>\<open>df[c] = v\<close>: replaces the column named \<open>c\<close> in place, or appends a new column.\<close>

fun setitem :: "frame \<Rightarrow> string \<Rightarrow> series \<Rightarrow> frame" where
  "setitem [] c v = [(c, v)]"
| "setitem ((k, w) # f) c v = (if k = c then (c, v) # f else (k, w) # setitem f c v)"

text \<open>
  \<^verbatim>\<open>def winsorize(frame, cols, q=(0.01, 0.99)):
      df = frame.copy()
      for c in cols:
          if c in df.columns:
              lo, hi = df[c].quantile(q)
              df[c] = df[c].clip(lo, hi)
      return df\<close>

  The loop works on the object \<open>df\<close> in the store; an exception leaves the store as it
  is at that moment.
\<close>

fun winsorize_loop ::
  "store \<Rightarrow> nat \<Rightarrow> string list \<Rightarrow> real \<times> real \<Rightarrow> store \<times> (error + unit)" where
  "winsorize_loop s df [] q = (s, Inr ())"
| "winsorize_loop s df (c # cols) q =
     (case map_of (s ! df) c of
        None \<Rightarrow> winsorize_loop s df cols q
      | Some col \<Rightarrow>
          (case quantile2 q col of
             Inl e \<Rightarrow> (s, Inl e)
           | Inr (lo, hi) \<Rightarrow>
               winsorize_loop (s[df := setitem (s ! df) c (clip col lo hi)]) df cols q))"

definition winsorize ::
  "store \<Rightarrow> nat \<Rightarrow> string list \<Rightarrow> real \<times> real \<Rightarrow> store \<times> (error + nat)" where
  "winsorize s frame' cols q =
     (let (s1, df) = frame_copy s frame';
          (s2, res) = winsorize_loop s1 df cols q
      in (s2, case res of Inl e \<Rightarrow> Inl e | Inr u \<Rightarrow> Inr df))"

section \<open>Verified properties\<close>

subsection \<open>Window sizing\<close>

text \<open>
  C6. For every integer \<open>k\<close>, the oddification helper is idempotent, and its result is an
  odd integer that is at least 3; it is \<open>max 3 k\<close> when that is odd and \<open>max 3 k + 1\<close>
  otherwise.
\<close>

theorem local_odd_idempotent_odd_ge3:
  "local_odd (local_odd k) = local_odd k
   \<and> odd (local_odd k) \<and> 3 \<le> local_odd k
   \<and> local_odd k = (if odd (max 3 k) then max 3 k else max 3 k + 1)"
  unfolding local_odd_def Let_def by presburger

text \<open>
  C3. For 744 hourly points and period 24 the robust method's windows are
  \<open>seasonal_w = 25\<close> and \<open>trend_w = 121\<close>: both odd, the first at most \<open>744 div 8 = 93\<close>,
  the second at most \<open>744 div 2 = 372\<close>.
\<close>

theorem windows_744:
  "odd (seasonal_w 744 24) \<and> odd (trend_w 744 24)
   \<and> seasonal_w 744 24 \<le> 744 div 8 \<and> (744::int) div 8 = 93
   \<and> trend_w 744 24 \<le> 744 div 2 \<and> (744::int) div 2 = 372
   \<and> seasonal_w 744 24 = 25 \<and> trend_w 744 24 = 121"
  by (simp add: seasonal_w_def trend_w_def local_odd_def)

subsection \<open>The length guard of the decomposition\<close>

text \<open>
  C2. The decomposition runs only when the series has at least \<open>2 * 24 = 48\<close> points.
  For every shorter series (whatever the method and the fitting routines) the panel holds
  no decomposition: it is the information message, which states the required minimum 48.
\<close>

theorem insufficient_data_guard:
  "(int (length ts_hourly) < 2 * 24 \<longrightarrow>
      decomposition_panel stl_fit seasonal_decompose algo ts_hourly = Info not_enough_msg)
   \<and> (\<forall>d. decomposition_panel stl_fit seasonal_decompose algo ts_hourly = Decomposed d
          \<longrightarrow> 2 * 24 \<le> int (length ts_hourly))
   \<and> (\<exists>pre. not_enough_msg = pre @ '' 48).'')"
  by (auto simp: decomposition_panel_def not_enough_msg_def Let_def split: prod.splits)

theorem insufficient_data_guard_witness:
  "int (length (replicate 40 (Some 0 :: real option))) < 2 * 24
   \<and> decomposition_panel (\<lambda>s p sw tw r. (s, s, s))
        (\<lambda>s p. \<lparr>obs = s, trend = s, seas = s, resid = s\<rparr>) ''STL (robust)''
        (replicate 40 (Some 0)) = Info not_enough_msg"
  using insufficient_data_guard
    [of "replicate 40 (Some 0)" "\<lambda>s p sw tw r. (s, s, s)"
        "\<lambda>s p. \<lparr>obs = s, trend = s, seas = s, resid = s\<rparr>" "''STL (robust)''"]
  by simp

subsection \<open>Rolling aggregate of the residual\<close>

lemma window_map: "window w (map f s) i = map f (window w s i)"
  by (simp add: window_def drop_map take_map)

lemma valid_series_abs: "valid (series_abs s) = map abs (valid s)"
  by (induction s) (auto simp: valid_def series_abs_def)

lemma window_series_abs: "window w (series_abs s) i = series_abs (window w s i)"
  by (simp add: series_abs_def window_map)

lemma length_series_abs: "length (series_abs s) = length s"
  by (simp add: series_abs_def)

text \<open>
  C4. With the aggregate \<open>abs_sum\<close>, the rolling result at every position is the sum of the
  absolute values of the residuals present in the window (missing when none is present).
  On the residuals \<open>-5, 5, -3\<close> with a window of 3 the last position is 13, while the plain
  rolling sum there is \<open>-3\<close>, of absolute value 3.
\<close>

theorem resid_roll_abs_sum:
  "(1 \<le> roll_h \<longrightarrow>
   resid_roll Abs_sum resid' roll_h =
     Inr (map (\<lambda>i. let v = valid (window roll_h resid' i)
                    in if v = [] then None else Some (\<Sum>x\<leftarrow>v. \<bar>x\<bar>))
              [0..<length resid']))
  \<and> resid_roll Abs_sum [Some (-5), Some 5, Some (-3)] 3 = Inr [Some 5, Some 10, Some 13]
  \<and> resid_roll Sum [Some (-5), Some 5, Some (-3)] 3 = Inr [Some (-5), Some 0, Some (-3)]"
proof (intro conjI impI)
  assume "1 \<le> roll_h"
  then show "resid_roll Abs_sum resid' roll_h =
     Inr (map (\<lambda>i. let v = valid (window roll_h resid' i)
                    in if v = [] then None else Some (\<Sum>x\<leftarrow>v. \<bar>x\<bar>))
              [0..<length resid'])"
    by (simp add: resid_roll_def rolling_def agg_sum_def Let_def window_series_abs
        valid_series_abs length_series_abs)
next
  show "resid_roll Abs_sum [Some (-5), Some 5, Some (-3)] 3 = Inr [Some 5, Some 10, Some 13]"
    by (simp add: resid_roll_def rolling_def agg_sum_def Let_def valid_def window_def
        series_abs_def upt_rec)
next
  show "resid_roll Sum [Some (-5), Some 5, Some (-3)] 3 = Inr [Some (-5), Some 0, Some (-3)]"
    by (simp add: resid_roll_def rolling_def agg_sum_def Let_def valid_def window_def
        series_abs_def upt_rec)
qed

theorem resid_roll_abs_sum_witness:
  "(1::nat) \<le> 2
   \<and> resid_roll Abs_sum [Some 2, None, Some (-4), Some (-1)] 2
       = Inr [Some 2, Some 2, Some 4, Some 5]"
  using resid_roll_abs_sum [of 2 "[Some 2, None, Some (-4), Some (-1)]"]
  by (simp add: valid_def window_def upt_rec)

subsection \<open>Marking the highest and lowest points\<close>








subsection \<open>Resampling onto the grid\<close>

lemma rule_width_pos: "0 < rule_width r"
  by (cases r) simp_all

lemma bucket_start_mono: "s \<le> t \<Longrightarrow> bucket_start r s \<le> bucket_start r t"
  using rule_width_pos [of r] by (simp add: bucket_start_def zdiv_mono1)

lemma grid_span_div:
  "(bucket_start r t - bucket_start r s) div rule_width r = t div rule_width r - s div rule_width r"
proof -
  have "bucket_start r t - bucket_start r s = (t div rule_width r - s div rule_width r) * rule_width r"
    by (simp add: bucket_start_def algebra_simps)
  then show ?thesis using rule_width_pos [of r] by simp
qed

lemma bucket_in_grid:
  assumes "t \<in> set idx"
  shows "bucket_start r t \<in> set (grid r idx)"
proof -
  let ?w = "rule_width r"
  let ?mn = "Min (set idx)" and ?mx = "Max (set idx)"
  have ne: "idx \<noteq> []" using assms by auto
  have w: "0 < ?w" by (rule rule_width_pos)
  have lo: "?mn \<le> t" and hi: "t \<le> ?mx" using assms by simp_all
  have d1: "?mn div ?w \<le> t div ?w" and d2: "t div ?w \<le> ?mx div ?w"
    using lo hi w by (simp_all add: zdiv_mono1)
  define k where "k = nat (t div ?w - ?mn div ?w)"
  have kb: "k < Suc (nat ((bucket_start r ?mx - bucket_start r ?mn) div ?w))"
    unfolding grid_span_div k_def using d1 d2 by linarith
  have "bucket_start r t = bucket_start r ?mn + int k * ?w"
    unfolding k_def bucket_start_def using d1 by (simp add: algebra_simps)
  then have "bucket_start r t \<in>
      (\<lambda>k. bucket_start r ?mn + int k * ?w) ` {0..<Suc (nat ((bucket_start r ?mx - bucket_start r ?mn) div ?w))}"
    using kb by (intro image_eqI [where x = k]) simp_all
  then show ?thesis
    using ne by (simp add: grid_def Let_def del: upt_Suc)
qed

lemma distinct_grid: "distinct (grid r idx)"
proof -
  have "inj_on (\<lambda>k. a + int k * rule_width r) A" for a A
    using rule_width_pos [of r] by (auto simp: inj_on_def)
  then show ?thesis
    by (simp add: grid_def Let_def distinct_map del: upt_Suc)
qed

lemma grid_sort: "grid r (sort idx) = grid r idx"
proof -
  have "sort idx = [] \<longleftrightarrow> idx = []"
    by (metis length_0_conv length_sort)
  then show ?thesis by (simp add: grid_def)
qed

lemma map_of_grid_map:
  "b \<in> set (grid r idx) \<Longrightarrow> map_of (zip (grid r idx) (map f (grid r idx))) b = Some (f b)"
  by (simp add: map_of_zip_map)

lemma bucket_cells_empty:
  assumes "\<forall>t\<in>set idx. bucket_start r t \<noteq> b"
  shows "bucket_cells r idx col b = []"
proof -
  have "\<forall>p\<in>set (zip idx col). bucket_start r (fst p) \<noteq> b"
    using assms by (auto dest: set_zip_leftD)
  then show ?thesis by (simp add: bucket_cells_def)
qed

lemma resample_col_empty_bucket:
  assumes "b \<in> set (grid r idx)" and "\<forall>t\<in>set idx. bucket_start r t \<noteq> b"
  shows "map_of (zip (grid r idx) (resample_col r agg idx col)) b = Some (agg [])"
  using assms by (simp add: resample_col_def map_of_grid_map bucket_cells_empty valid_def)

lemma columns_sort_index:
  "map_of (columns (sort_index fr)) c
     = map_option (\<lambda>col. map snd (sort_key fst (zip (index fr) col))) (map_of (columns fr) c)"
  by (simp add: sort_index_def map_of_map)

lemma index_sort_index: "index (sort_index fr) = sort (index fr)"
  by (simp add: sort_index_def)

lemma loc_resample_agg_empty:
  assumes b: "b \<in> set (grid r (index df))"
    and e: "\<forall>t\<in>set (index df). bucket_start r t \<noteq> b"
    and ok: "resample_agg r spec (sort_index df) = Inr out"
    and c: "map_of spec c = Some agg"
  shows "loc out c b = Some (agg [])"
proof -
  have out: "out = \<lparr>index = grid r (index df),
      columns = map (\<lambda>(c, agg). (c, resample_col r agg (sort (index df))
                  (the (map_of (columns (sort_index df)) c)))) spec\<rparr>"
    using ok by (simp add: resample_agg_def index_sort_index grid_sort split: if_splits)
  have "map_of (columns out) c
      = Some (resample_col r agg (sort (index df)) (the (map_of (columns (sort_index df)) c)))"
    unfolding out using c by (induction spec) (auto split: if_splits)
  moreover have "map_of (zip (grid r (sort (index df))) (resample_col r agg (sort (index df)) col)) b
      = Some (agg [])" for col
    using b e by (intro resample_col_empty_bucket) (simp_all add: grid_sort)
  ultimately show ?thesis
    by (simp add: loc_def out grid_sort)
qed

lemma resample_agg_ok:
  "\<forall>c\<in>set (map fst spec). map_of (columns df) c \<noteq> None \<Longrightarrow>
   \<exists>out. resample_agg r spec (sort_index df) = Inr out"
  by (simp add: resample_agg_def columns_sort_index)

text \<open>
  C5 (as amended). In the resampled frames of the time tab and of the correlation tab, a
  bucket of the grid into which no source row falls holds a missing value in every
  mean-aggregated column (\<open>traffic_volume\<close>, \<open>average_speed\<close>) and the value 0, not a
  missing value, in the sum-aggregated column \<open>incidents\<close>.
\<close>

theorem empty_bucket_missing_or_zero:
  assumes b: "b \<in> set (grid r (index df))"
    and e: "\<forall>t\<in>set (index df). bucket_start r t \<noteq> b"
    and tv: "map_of (columns df) ''traffic_volume'' \<noteq> None"
    and sp: "map_of (columns df) ''average_speed'' \<noteq> None"
    and inc: "map_of (columns df) ''incidents'' \<noteq> None"
  shows "(\<exists>out. ts r df = Inr out
            \<and> loc out ''traffic_volume'' b = Some None
            \<and> loc out ''average_speed'' b = Some None)
       \<and> (\<exists>out. base r df = Inr out
            \<and> loc out ''traffic_volume'' b = Some None
            \<and> loc out ''average_speed'' b = Some None
            \<and> loc out ''incidents'' b = Some (Some 0))"
proof (intro conjI)
  obtain out where out: "ts r df = Inr out"
    using resample_agg_ok [of "[(''traffic_volume'', agg_mean), (''average_speed'', agg_mean)]" df r]
      tv sp by (auto simp: ts_def)
  have "loc out ''traffic_volume'' b = Some (agg_mean [])"
    by (rule loc_resample_agg_empty [OF b e out [unfolded ts_def]]) simp
  moreover have "loc out ''average_speed'' b = Some (agg_mean [])"
    by (rule loc_resample_agg_empty [OF b e out [unfolded ts_def]]) simp
  ultimately show "\<exists>out. ts r df = Inr out
            \<and> loc out ''traffic_volume'' b = Some None
            \<and> loc out ''average_speed'' b = Some None"
    using out by (simp add: agg_mean_def)
next
  obtain out where out: "base r df = Inr out"
    using resample_agg_ok [of "[(''traffic_volume'', agg_mean), (''average_speed'', agg_mean),
        (''incidents'', agg_sum)]" df r]
      tv sp inc by (auto simp: base_def)
  have "loc out ''traffic_volume'' b = Some (agg_mean [])"
    by (rule loc_resample_agg_empty [OF b e out [unfolded base_def]]) simp
  moreover have "loc out ''average_speed'' b = Some (agg_mean [])"
    by (rule loc_resample_agg_empty [OF b e out [unfolded base_def]]) simp
  moreover have "loc out ''incidents'' b = Some (agg_sum [])"
    by (rule loc_resample_agg_empty [OF b e out [unfolded base_def]]) simp
  ultimately show "\<exists>out. base r df = Inr out
            \<and> loc out ''traffic_volume'' b = Some None
            \<and> loc out ''average_speed'' b = Some None
            \<and> loc out ''incidents'' b = Some (Some 0)"
    using out by (simp add: agg_mean_def agg_sum_def)
qed

lemmas eval_defs = base_def ts_def resample_agg_def sort_index_def resample_col_def grid_def
  bucket_start_def Let_def upt_rec bucket_cells_def valid_def agg_mean_def agg_sum_def loc_def

theorem empty_bucket_missing_or_zero_witness:
  "3600000000000 \<in> set (grid H (index
       \<lparr>index = [7200000000000, 100],
        columns = [(''traffic_volume'', [Some 30, Some 10]),
                   (''average_speed'', [None, Some 50]),
                   (''incidents'', [Some 2, Some 1])]\<rparr>))
   \<and> bucket_start H 7200000000000 \<noteq> 3600000000000
   \<and> bucket_start H 100 \<noteq> 3600000000000
   \<and> (\<exists>out. base H
         \<lparr>index = [7200000000000, 100],
          columns = [(''traffic_volume'', [Some 30, Some 10]),
                     (''average_speed'', [None, Some 50]),
                     (''incidents'', [Some 2, Some 1])]\<rparr> = Inr out
         \<and> loc out ''incidents'' 3600000000000 = Some (Some 0)
         \<and> loc out ''traffic_volume'' 3600000000000 = Some None)"
  (is "_ \<in> set (grid H (index ?df)) \<and> _")
proof -
  have g: "3600000000000 \<in> set (grid H (index ?df))"
    by (simp add: grid_def bucket_start_def Let_def upt_rec)
  have e: "\<forall>t\<in>set (index ?df). bucket_start H t \<noteq> 3600000000000"
    by (simp add: bucket_start_def)
  have c: "map_of (columns ?df) ''traffic_volume'' \<noteq> None"
    "map_of (columns ?df) ''average_speed'' \<noteq> None"
    "map_of (columns ?df) ''incidents'' \<noteq> None"
    by simp_all
  show ?thesis
    using empty_bucket_missing_or_zero [OF g e c] g e by auto
qed

text \<open>
  The claim as written fails on the sum-aggregated column: two rows, in the hours 0 and 2,
  leave the bucket of hour 1 empty, and the resampled \<open>incidents\<close> there is 0.
\<close>

theorem empty_bucket_sum_counterexample:
  "bucket_start H 7200000000000 \<noteq> 3600000000000 \<and> bucket_start H 100 \<noteq> 3600000000000
   \<and> base H \<lparr>index = [7200000000000, 100],
          columns = [(''traffic_volume'', [Some 30, Some 10]),
                     (''average_speed'', [None, Some 50]),
                     (''incidents'', [Some 2, Some 1])]\<rparr>
     = Inr \<lparr>index = [0, 3600000000000, 7200000000000],
        columns =
          [(''traffic_volume'', [Some 10, None, Some 30]),
           (''average_speed'', [Some 50, None, None]),
           (''incidents'', [Some 1, Some 0, Some 2])]\<rparr>"
  by (simp add: eval_defs)

subsection \<open>One source row per bucket\<close>

lemma map_fst_sort_key: "map fst (sort_key fst zs) = sort (map fst zs)"
  by (rule properties_for_sort [symmetric]) simp_all

lemma zip_sort_index:
  assumes "length col = length idx"
  shows "zip (sort idx) (map snd (sort_key fst (zip idx col))) = sort_key fst (zip idx col)"
proof -
  have "map fst (zip idx col) = idx" using assms by simp
  then have "sort idx = map fst (sort_key fst (zip idx col))"
    by (simp add: map_fst_sort_key)
  then show ?thesis by (simp add: zip_map_fst_snd)
qed

lemma singleton_filter:
  assumes "length (filter P xs) = 1" and "x \<in> set xs" and "P x"
  shows "filter P xs = [x]"
proof -
  obtain y where y: "filter P xs = [y]"
    using assms(1) by (cases "filter P xs") auto
  have "x \<in> set (filter P xs)" using assms by simp
  then show ?thesis using y by simp
qed

lemma bucket_cells_single:
  assumes len: "length col = length idx" and j: "j < length idx"
    and one: "length (filter (\<lambda>t. bucket_start r t = bucket_start r (idx ! j)) idx) = 1"
  shows "bucket_cells r (sort idx) (map snd (sort_key fst (zip idx col)))
           (bucket_start r (idx ! j)) = [col ! j]"
proof -
  let ?b = "bucket_start r (idx ! j)"
  let ?P = "\<lambda>p :: timestamp \<times> real option. bucket_start r (fst p) = ?b"
  let ?zs = "zip idx col"
  have "length (filter ?P (sort_key fst ?zs)) = size (filter_mset ?P (mset (sort_key fst ?zs)))"
    by (metis mset_filter size_mset)
  also have "\<dots> = length (filter ?P ?zs)"
    by (metis mset_filter mset_sort size_mset)
  also have "\<dots> = length (filter (\<lambda>t. bucket_start r t = ?b) (map fst ?zs))"
    by (simp add: filter_map comp_def)
  also have "\<dots> = 1" using len one by simp
  finally have l1: "length (filter ?P (sort_key fst ?zs)) = 1" .
  have "(idx ! j, col ! j) \<in> set ?zs"
    using len j by (auto simp: set_zip)
  then have "(idx ! j, col ! j) \<in> set (sort_key fst ?zs)" by simp
  then have "filter ?P (sort_key fst ?zs) = [(idx ! j, col ! j)]"
    using l1 by (intro singleton_filter) simp_all
  then show ?thesis
    by (simp add: bucket_cells_def zip_sort_index [OF len])
qed

lemma agg_mean_single_cell: "agg_mean (valid [v]) = v"
  by (cases v) (simp_all add: agg_mean_def valid_def)

lemma resample_col_single:
  assumes len: "length col = length idx" and j: "j < length idx"
    and one: "length (filter (\<lambda>t. bucket_start r t = bucket_start r (idx ! j)) idx) = 1"
  shows "map_of (zip (grid r (sort idx))
            (resample_col r agg_mean (sort idx) (map snd (sort_key fst (zip idx col)))))
           (bucket_start r (idx ! j)) = Some (col ! j)"
proof -
  have "bucket_start r (idx ! j) \<in> set (grid r (sort idx))"
    using j by (simp add: grid_sort bucket_in_grid)
  then show ?thesis
    by (simp add: resample_col_def map_of_grid_map bucket_cells_single [OF len j one]
        agg_mean_single_cell)
qed

text \<open>
  C9. When every bucket of the grid holds exactly one source row (and the two aggregated
  columns are as long as the index), the resampled time-tab frame under the \<open>mean\<close>
  aggregate holds, in the bucket of every source row, exactly that row's
  \<open>traffic_volume\<close> and \<open>average_speed\<close> (a missing cell stays missing).
\<close>

theorem single_point_buckets_mean:
  assumes tv: "map_of (columns df) ''traffic_volume'' = Some vol"
    and sp: "map_of (columns df) ''average_speed'' = Some spd"
    and lv: "length vol = length (index df)"
    and ls: "length spd = length (index df)"
    and single: "\<forall>b\<in>set (grid r (index df)).
                   length (filter (\<lambda>t. bucket_start r t = b) (index df)) = 1"
    and j: "j < length (index df)"
  shows "\<exists>out. ts r df = Inr out
           \<and> loc out ''traffic_volume'' (bucket_start r (index df ! j)) = Some (vol ! j)
           \<and> loc out ''average_speed'' (bucket_start r (index df ! j)) = Some (spd ! j)"
proof -
  have "bucket_start r (index df ! j) \<in> set (grid r (index df))"
    using j by (simp add: bucket_in_grid)
  then have one: "length (filter (\<lambda>t. bucket_start r t = bucket_start r (index df ! j)) (index df)) = 1"
    using single by blast
  show ?thesis
    using resample_col_single [OF lv j one] resample_col_single [OF ls j one] tv sp
    by (simp add: ts_def resample_agg_def columns_sort_index index_sort_index loc_def)
qed

theorem single_point_buckets_mean_witness:
  "(\<exists>out. ts H \<lparr>index = [7200000000000, 100, 3600000000001],
          columns = [(''traffic_volume'', [Some 30, Some 10, None]),
                     (''average_speed'', [Some 45, Some 50, Some 55])]\<rparr> = Inr out
           \<and> loc out ''traffic_volume'' 0 = Some (Some 10)
           \<and> loc out ''average_speed'' 0 = Some (Some 50)
           \<and> loc out ''traffic_volume'' 3600000000000 = Some None
           \<and> loc out ''average_speed'' 3600000000000 = Some (Some 55))"
  (is "\<exists>out. ts H ?df = _ \<and> _")
proof -
  have g: "grid H (index ?df) = [0, 3600000000000, 7200000000000]"
    by (simp add: grid_def bucket_start_def Let_def upt_rec)
  have single: "\<forall>b\<in>set (grid H (index ?df)).
                   length (filter (\<lambda>t. bucket_start H t = b) (index ?df)) = 1"
    unfolding g by (simp add: bucket_start_def)
  have c: "map_of (columns ?df) ''traffic_volume'' = Some [Some 30, Some 10, None]"
    "map_of (columns ?df) ''average_speed'' = Some [Some 45, Some 50, Some 55]"
    "length [Some 30, Some 10, None :: real option] = length (index ?df)"
    "length [Some 45, Some 50, Some 55 :: real option] = length (index ?df)"
    by simp_all
  have j: "1 < length (index ?df)" "2 < length (index ?df)" by simp_all
  show ?thesis
    using single_point_buckets_mean [OF c single j(1)]
      single_point_buckets_mean [OF c single j(2)]
    by (auto simp: bucket_start_def)
qed

subsection \<open>Joining with the external factors\<close>

lemma columns_resample_agg:
  assumes "resample_agg r spec fr = Inr out"
  shows "index out = grid r (index fr)"
    and "map fst (columns out) = map fst spec"
    and "\<forall>col\<in>snd ` set (columns out). length col = length (grid r (index fr))"
  using assms
  by (auto simp: resample_agg_def resample_col_def comp_def case_prod_unfold split: if_splits)

lemma join_inner_index:
  assumes "set (map fst (columns a)) \<inter> set (map fst (columns b)) = {}"
  shows "\<exists>j. join_inner a b = Inr j
          \<and> index j = filter (\<lambda>k. k \<in> set (index b)) (index a)
          \<and> (\<forall>col\<in>snd ` set (columns j). length col = length (index j))"
  using assms by (auto simp: join_inner_def Let_def rows_at_def)

text \<open>
  C8. When the frame has the three aggregated columns and the external frame has none of
  those names, the inner join of the resampled base grid with the resampled external
  grid succeeds and has exactly one row for every bucket that lies in both grids, in the
  order of the base grid, and no other row; every column of the result has that many
  cells. A base grid of 100 hourly buckets and an external grid that shares 60 of them
  give 60 rows.
\<close>

theorem join_inner_rows:
  assumes tv: "map_of (columns df) ''traffic_volume'' \<noteq> None"
    and sp: "map_of (columns df) ''average_speed'' \<noteq> None"
    and inc: "map_of (columns df) ''incidents'' \<noteq> None"
    and disj: "set (map fst (columns ext))
                 \<inter> {''traffic_volume'', ''average_speed'', ''incidents''} = {}"
  shows "\<exists>j. join r df ext = Inr j
          \<and> index j = filter (\<lambda>b. b \<in> set (grid r (index ext))) (grid r (index df))
          \<and> distinct (index j)
          \<and> set (index j) = set (grid r (index df)) \<inter> set (grid r (index ext))
          \<and> (\<forall>col\<in>snd ` set (columns j). length col = length (index j))"
proof -
  obtain b where b: "base r df = Inr b"
    using resample_agg_ok [of "[(''traffic_volume'', agg_mean), (''average_speed'', agg_mean),
        (''incidents'', agg_sum)]" df r] tv sp inc by (auto simp: base_def)
  have bi: "index b = grid r (index df)"
    and bc: "map fst (columns b) = [''traffic_volume'', ''average_speed'', ''incidents'']"
    using columns_resample_agg [OF b [unfolded base_def]]
    by (simp_all add: index_sort_index grid_sort)
  have ei: "index (ext_r r ext) = grid r (index ext)"
    and ec: "map fst (columns (ext_r r ext)) = map fst (columns ext)"
    by (simp_all add: ext_r_def resample_mean_def index_sort_index grid_sort sort_index_def
        comp_def case_prod_unfold)
  have "set (map fst (columns b)) \<inter> set (map fst (columns (ext_r r ext))) = {}"
    unfolding bc ec using disj by auto
  from join_inner_index [OF this] obtain j where j: "join_inner b (ext_r r ext) = Inr j"
    "index j = filter (\<lambda>k. k \<in> set (index (ext_r r ext))) (index b)"
    "\<forall>col\<in>snd ` set (columns j). length col = length (index j)"
    by blast
  have "join r df ext = Inr j" using b j(1) by (simp add: join_def)
  moreover have "index j = filter (\<lambda>b. b \<in> set (grid r (index ext))) (grid r (index df))"
    using j(2) by (simp add: bi ei)
  moreover from this have "distinct (index j)"
    and "set (index j) = set (grid r (index df)) \<inter> set (grid r (index ext))"
    by (auto simp: distinct_grid)
  ultimately show ?thesis using j(3) by blast
qed

theorem join_inner_rows_witness:
  "length (grid H [0, 356400000000000]) = 100
   \<and> length (grid H [144000000000005, 468000000000000]) = 91
   \<and> (\<exists>j. join H
         \<lparr>index = [0, 356400000000000],
          columns = [(''traffic_volume'', [Some 10, Some 30]),
                     (''average_speed'', [Some 50, None]),
                     (''incidents'', [Some 1, Some 2])]\<rparr>
         \<lparr>index = [144000000000005, 468000000000000],
          columns = [(''rain'', [Some 3, Some 4])]\<rparr> = Inr j
        \<and> length (index j) = 60)"
  (is "_ \<and> _ \<and> (\<exists>j. join H ?df ?ext = _ \<and> _)")
proof -
  have n: "length (filter (\<lambda>b. b \<in> set (grid H (index ?ext))) (grid H (index ?df))) = 60"
    by (simp add: grid_def bucket_start_def Let_def upt_rec)
  have c: "map_of (columns ?df) ''traffic_volume'' \<noteq> None"
    "map_of (columns ?df) ''average_speed'' \<noteq> None"
    "map_of (columns ?df) ''incidents'' \<noteq> None"
    "set (map fst (columns ?ext))
       \<inter> {''traffic_volume'', ''average_speed'', ''incidents''} = {}"
    by simp_all
  have g: "length (grid H [0, 356400000000000]) = 100"
    "length (grid H [144000000000005, 468000000000000]) = 91"
    by (simp_all add: grid_def bucket_start_def Let_def)
  from join_inner_rows [OF c, of H] obtain j where
    "join H ?df ?ext = Inr j"
    "index j = filter (\<lambda>b. b \<in> set (grid H (index ?ext))) (grid H (index ?df))"
    by blast
  then have "join H ?df ?ext = Inr j \<and> length (index j) = 60"
    using n by simp
  then show ?thesis using g by blast
qed

subsection \<open>Winsorizing works on a copy\<close>

lemma map_of_setitem: "map_of (setitem f c v) = (map_of f)(c \<mapsto> v)"
  by (induction f c v rule: setitem.induct) auto

lemma names_setitem: "map_of f c \<noteq> None \<Longrightarrow> map fst (setitem f c v) = map fst f"
  by (induction f c v rule: setitem.induct) auto

lemma winsorize_loop_others:
  "winsorize_loop s df cols q = (s', res) \<Longrightarrow>
   length s' = length s \<and> (\<forall>a. a \<noteq> df \<longrightarrow> s' ! a = s ! a)"
proof (induction cols arbitrary: s)
  case Nil
  then show ?case by simp
next
  case (Cons c cols)
  show ?case
  proof (cases "map_of (s ! df) c")
    case None
    then show ?thesis using Cons by simp
  next
    case (Some col)
    show ?thesis
    proof (cases "quantile2 q col")
      case (Inl e)
      then show ?thesis using Cons.prems Some by simp
    next
      case (Inr p)
      obtain lo hi where p: "p = (lo, hi)" by (cases p)
      have "winsorize_loop (s[df := setitem (s ! df) c (clip col lo hi)]) df cols q = (s', res)"
        using Cons.prems Some Inr p by simp
      from Cons.IH [OF this] show ?thesis by simp
    qed
  qed
qed

lemma winsorize_loop_names:
  "df < length s \<Longrightarrow> winsorize_loop s df cols q = (s', res) \<Longrightarrow>
   map fst (s' ! df) = map fst (s ! df)"
proof (induction cols arbitrary: s)
  case Nil
  then show ?case by simp
next
  case (Cons c cols)
  show ?case
  proof (cases "map_of (s ! df) c")
    case None
    then show ?thesis using Cons by simp
  next
    case (Some col)
    show ?thesis
    proof (cases "quantile2 q col")
      case (Inl e)
      then show ?thesis using Cons.prems Some by simp
    next
      case (Inr p)
      obtain lo hi where p: "p = (lo, hi)" by (cases p)
      let ?s1 = "s[df := setitem (s ! df) c (clip col lo hi)]"
      have "winsorize_loop ?s1 df cols q = (s', res)"
        using Cons.prems Some Inr p by simp
      from Cons.IH [OF _ this] Cons.prems(1) have "map fst (s' ! df) = map fst (?s1 ! df)"
        by simp
      then show ?thesis using Cons.prems(1) Some by (simp add: names_setitem)
    qed
  qed
qed

lemma winsorize_loop_unlisted:
  "df < length s \<Longrightarrow> winsorize_loop s df cols q = (s', res) \<Longrightarrow> c \<notin> set cols \<Longrightarrow>
   map_of (s' ! df) c = map_of (s ! df) c"
proof (induction cols arbitrary: s)
  case Nil
  then show ?case by simp
next
  case (Cons c0 cols)
  show ?case
  proof (cases "map_of (s ! df) c0")
    case None
    then show ?thesis using Cons by simp
  next
    case (Some col)
    show ?thesis
    proof (cases "quantile2 q col")
      case (Inl e)
      then show ?thesis using Cons.prems Some by simp
    next
      case (Inr p)
      obtain lo hi where p: "p = (lo, hi)" by (cases p)
      let ?s1 = "s[df := setitem (s ! df) c0 (clip col lo hi)]"
      have "winsorize_loop ?s1 df cols q = (s', res)"
        using Cons.prems Some Inr p by simp
      from Cons.IH [OF _ this] Cons.prems have "map_of (s' ! df) c = map_of (?s1 ! df) c"
        by simp
      then show ?thesis using Cons.prems by (simp add: map_of_setitem)
    qed
  qed
qed

lemma winsorize_loop_listed_once:
  "df < length s \<Longrightarrow> winsorize_loop s df cols q = (s', Inr ()) \<Longrightarrow> count_list cols c = 1 \<Longrightarrow>
   map_of (s ! df) c = Some col \<Longrightarrow>
   \<exists>lo hi. quantile2 q col = Inr (lo, hi) \<and> map_of (s' ! df) c = Some (clip col lo hi)"
proof (induction cols arbitrary: s)
  case Nil
  then show ?case by simp
next
  case (Cons c0 cols)
  show ?case
  proof (cases "map_of (s ! df) c0")
    case None
    then have "c0 \<noteq> c" using Cons.prems(4) by auto
    then show ?thesis using Cons None by simp
  next
    case (Some col0)
    show ?thesis
    proof (cases "quantile2 q col0")
      case (Inl e)
      then show ?thesis using Cons.prems Some by simp
    next
      case (Inr p)
      obtain lo hi where p: "p = (lo, hi)" by (cases p)
      let ?s1 = "s[df := setitem (s ! df) c0 (clip col0 lo hi)]"
      have run: "winsorize_loop ?s1 df cols q = (s', Inr ())"
        using Cons.prems Some Inr p by simp
      have len: "df < length ?s1" using Cons.prems(1) by simp
      show ?thesis
      proof (cases "c0 = c")
        case True
        then have "c \<notin> set cols" using Cons.prems(3) by (auto simp: count_list_0_iff)
        from winsorize_loop_unlisted [OF len run this]
        have "map_of (s' ! df) c = Some (clip col0 lo hi)"
          using Cons.prems(1) True by (simp add: map_of_setitem)
        then show ?thesis using True Some Cons.prems(4) Inr p by simp
      next
        case False
        then have "count_list cols c = 1" using Cons.prems(3) by simp
        moreover have "map_of (?s1 ! df) c = Some col"
          using Cons.prems(1,4) False by (simp add: map_of_setitem)
        ultimately show ?thesis using Cons.IH [OF len run] by blast
      qed
    qed
  qed
qed

lemma winsorize_loop_valid_q:
  "0 \<le> fst q \<Longrightarrow> fst q \<le> 1 \<Longrightarrow> 0 \<le> snd q \<Longrightarrow> snd q \<le> 1 \<Longrightarrow>
   snd (winsorize_loop s df cols q) = Inr ()"
  by (induction cols arbitrary: s) (auto simp: quantile2_def split: option.splits)

text \<open>
  C10. Winsorizing leaves every frame that existed before the call, the caller's frame
  among them, exactly as it was: the only change to the store is one new frame. When the
  call returns (as it does whenever both quantile levels lie in \<open>[0, 1]\<close>), the result is
  that new frame; it has the columns of the input in the same order, every column that is
  not listed is unchanged, and every listed column of the input (listed once) is the
  input column clipped to its own pair of quantiles.
\<close>

theorem winsorize_frame_effect:
  assumes fr: "frame' < length s" and run: "winsorize s frame' cols q = (s', res)"
  shows "(\<forall>a<length s. s' ! a = s ! a)
       \<and> length s' = Suc (length s)
       \<and> (0 \<le> fst q \<and> fst q \<le> 1 \<and> 0 \<le> snd q \<and> snd q \<le> 1 \<longrightarrow> res = Inr (length s))
       \<and> (\<forall>df. res = Inr df \<longrightarrow>
             df = length s
           \<and> map fst (s' ! df) = map fst (s ! frame')
           \<and> (\<forall>c. c \<notin> set cols \<longrightarrow> map_of (s' ! df) c = map_of (s ! frame') c)
           \<and> (\<forall>c col. count_list cols c = 1 \<and> map_of (s ! frame') c = Some col \<longrightarrow>
                (\<exists>lo hi. quantile2 q col = Inr (lo, hi)
                   \<and> map_of (s' ! df) c = Some (clip col lo hi))))"
proof -
  let ?s1 = "s @ [s ! frame']"
  let ?df = "length s"
  obtain r where loop: "winsorize_loop ?s1 ?df cols q = (s', r)"
    and res: "res = (case r of Inl e \<Rightarrow> Inl e | Inr u \<Rightarrow> Inr ?df)"
    using run by (auto simp: winsorize_def frame_copy_def split: prod.splits)
  have df: "?df < length ?s1" by simp
  have copy: "?s1 ! ?df = s ! frame'" by simp
  from winsorize_loop_others [OF loop]
  have len: "length s' = Suc (length s)" and others: "\<forall>a. a \<noteq> ?df \<longrightarrow> s' ! a = ?s1 ! a"
    by simp_all
  have same: "\<forall>a<length s. s' ! a = s ! a"
    using others by (simp add: nth_append)
  have valid: "res = Inr ?df" if "0 \<le> fst q \<and> fst q \<le> 1 \<and> 0 \<le> snd q \<and> snd q \<le> 1"
    using winsorize_loop_valid_q [of q ?s1 ?df cols] that loop res by simp
  have ok: "df = ?df
           \<and> map fst (s' ! df) = map fst (s ! frame')
           \<and> (\<forall>c. c \<notin> set cols \<longrightarrow> map_of (s' ! df) c = map_of (s ! frame') c)
           \<and> (\<forall>c col. count_list cols c = 1 \<and> map_of (s ! frame') c = Some col \<longrightarrow>
                (\<exists>lo hi. quantile2 q col = Inr (lo, hi)
                   \<and> map_of (s' ! df) c = Some (clip col lo hi)))"
    if "res = Inr df" for df
  proof -
    from that res have r: "r = Inr ()" and d: "df = ?df"
      by (auto split: sum.splits)
    have n: "map fst (s' ! ?df) = map fst (s ! frame')"
      using winsorize_loop_names [OF df loop] by (simp only: copy)
    have u: "\<forall>c. c \<notin> set cols \<longrightarrow> map_of (s' ! ?df) c = map_of (s ! frame') c"
      using winsorize_loop_unlisted [OF df loop] by (simp only: copy) blast
    have l: "\<forall>c col. count_list cols c = 1 \<and> map_of (s ! frame') c = Some col \<longrightarrow>
                (\<exists>lo hi. quantile2 q col = Inr (lo, hi)
                   \<and> map_of (s' ! ?df) c = Some (clip col lo hi))"
      using winsorize_loop_listed_once [OF df loop [unfolded r]] by (simp only: copy) blast
    show ?thesis using d n u l by blast
  qed
  show ?thesis using same len valid ok by blast
qed

theorem winsorize_frame_effect_witness:
  "(0::nat) < length [[(''a'', [Some 5, None, Some 1, Some 2, Some 4, Some 3]),
                        (''b'', [Some 1, Some 100 :: real option])]]
   \<and> winsorize [[(''a'', [Some 5, None, Some 1, Some 2, Some 4, Some 3]),
                  (''b'', [Some 1, Some 100])]] 0 [''a'', ''zz''] (1 / 4, 3 / 4)
       = ([[(''a'', [Some 5, None, Some 1, Some 2, Some 4, Some 3]),
            (''b'', [Some 1, Some 100])],
           [(''a'', [Some 4, None, Some 2, Some 2, Some 4, Some 3]),
            (''b'', [Some 1, Some 100])]], Inr 1)
   \<and> quantile2 (1 / 4, 3 / 4) [Some 5, None, Some 1, Some 2, Some 4, Some 3]
       = Inr (Some 2, Some 4)"
  (is "_ < length ?s \<and> winsorize ?s 0 ?cols ?q = (?s', ?res) \<and> _")
proof -
  have q: "quantile2 ?q [Some 5, None, Some 1, Some 2, Some 4, Some 3] = Inr (Some 2, Some 4)"
    by (simp add: quantile2_def quantile_def valid_def Let_def)
  have fr: "(0::nat) < length ?s" by simp
  have run: "winsorize ?s 0 ?cols ?q = (?s', ?res)"
    by (simp add: winsorize_def frame_copy_def q clip_def)
  show ?thesis
    using winsorize_frame_effect [OF fr run] fr run q by simp
qed

end
